theory Spec2Isabelle
  imports Main "HOL-Library.Word"
begin

section \<open>Data of package list\<close>

text \<open>
  Go strings and byte slices are both sequences of bytes; an Isabelle \<open>char\<close> is one
  byte, so both are modelled as \<open>char list\<close>.
\<close>

type_synonym bytes = string

text \<open>
  A Go error value. \<open>E s\<close> is an error with message \<open>s\<close> (a library error, or
  \<open>fmt.Errorf\<close> without \<open>%w\<close>); \<open>Wrap p e\<close> is \<open>fmt.Errorf(p + ": %w", e)\<close>.
\<close>

datatype error = E string | Wrap string error

fun ErrorString :: "error \<Rightarrow> string" where
  "ErrorString (E s) = s"
| "ErrorString (Wrap p e) = p @ '': '' @ ErrorString e"

text \<open>What a call can do: return a value, return an error, or panic.\<close>

datatype 'a res = Done 'a | Fail error | Panic

text \<open>\<open>imap.Address\<close>, \<open>imap.Envelope\<close> and \<open>imap.Message\<close>, with the fields the code reads.\<close>

record address =
  PersonalName :: string
  MailboxName :: string
  HostName :: string

record gotime =
  unixNanos :: int
  zoneOffset :: int

record envelope =
  envDate :: gotime
  envSubject :: string
  envFrom :: "address list"
  envInReplyTo :: string
  envMessageId :: string

text \<open>
  An \<open>io.Reader\<close>: the chunks its successive \<open>Read\<close> calls deliver, then how it
  ends (\<open>None\<close> is \<open>io.EOF\<close>, \<open>Some e\<close> a read failure).
\<close>

datatype reader = Reader (chunks: "bytes list") (final: "error option")

text \<open>
  \<open>Envelope\<close> is a pointer in go-imap and may be nil; \<open>Body\<close> is what
  \<open>msg.GetBody(secName)\<close> returns, nil (\<open>None\<close>) when the section is absent.
  The addresses of an envelope are taken to be non-nil.
\<close>

record message =
  SeqNum :: "32 word"
  Uid :: "32 word"
  Envelope :: "envelope option"
  Body :: "reader option"

text \<open>The persisted metadata block, struct \<open>Header\<close>.\<close>

record Header =
  Key :: string
  MessageID :: string
  InReplyTo :: string
  Date :: string
  Folder :: string
  Subject :: string
  From :: string
  Size :: string
  Hash :: bytes

record Worker =
  Verbose :: bool
  Store :: string

section \<open>External libraries\<close>

text \<open>
  The functions of other packages that the code calls are parameters of the model:
  \<^item> \<open>xofRead a n\<close>: what \<open>Read\<close> on the blake2b XOF (32 bytes of output, no key)
    puts into a buffer of \<open>n\<close> bytes after the bytes \<open>a\<close> were written since the last
    \<open>Reset\<close>: the bytes read and the error;
  \<^item> \<open>sum256 a\<close>: \<open>Sum(nil)\<close> of the blake2b-256 hasher after the bytes \<open>a\<close>;
  \<^item> \<open>b32\<close>: unpadded standard base32 encoding;
  \<^item> \<open>jsonEncode\<close>: \<open>json.Encoder.Encode\<close> with HTML escaping off;
  \<^item> \<open>formatTime\<close>: \<open>Time.Format(time.RFC3339Nano)\<close>;
  \<^item> \<open>pathJoin\<close>: \<open>filepath.Join\<close>.
\<close>

record ext =
  xofRead :: "bytes \<Rightarrow> nat \<Rightarrow> bytes \<times> error option"
  sum256 :: "bytes \<Rightarrow> bytes"
  b32 :: "bytes \<Rightarrow> string"
  jsonEncode :: "Header \<Rightarrow> error + bytes"
  formatTime :: "gotime \<Rightarrow> string"
  pathJoin :: "string \<Rightarrow> string \<Rightarrow> string"

text \<open>
  A hash object (the XOF, the body hasher) is modelled by the bytes written to it since
  its last \<open>Reset\<close>; a \<open>bytes.Buffer\<close> by its unread contents.
\<close>

definition hashReset :: "bytes \<Rightarrow> bytes" where
  "hashReset h = []"

definition hashWrite :: "bytes \<Rightarrow> bytes \<Rightarrow> bytes" where
  "hashWrite h p = h @ p"

text \<open>\<open>strconv.FormatInt(i, 10)\<close>.\<close>

fun natDec :: "nat \<Rightarrow> string" where
  "natDec n = (if n < 10 then [''0123456789'' ! n]
               else natDec (n div 10) @ [''0123456789'' ! (n mod 10)])"

declare natDec.simps [simp del]

definition FormatInt :: "int \<Rightarrow> string" where
  "FormatInt i = (if i < 0 then CHR ''-'' # natDec (nat (- i)) else natDec (nat i))"

text \<open>\<open>strings.Contains\<close>.\<close>

fun hasPrefix :: "string \<Rightarrow> string \<Rightarrow> bool" where
  "hasPrefix s [] = True"
| "hasPrefix [] (c # cs) = False"
| "hasPrefix (a # s) (c # cs) = (a = c \<and> hasPrefix s cs)"

fun Contains :: "string \<Rightarrow> string \<Rightarrow> bool" where
  "Contains [] sub = hasPrefix [] sub"
| "Contains (a # s) sub = (hasPrefix (a # s) sub \<or> Contains s sub)"

section \<open>The store\<close>

text \<open>
  The directory: the files in it by path, the paths on which \<open>os.Stat\<close> and
  \<open>os.WriteFile\<close> fail for a reason of the system, and the history of the paths written
  by successful \<open>os.WriteFile\<close> calls, oldest first. A failed write is modelled as
  leaving the directory as it was.
\<close>

record store =
  files :: "string \<rightharpoonup> bytes"
  statFault :: "string \<rightharpoonup> error"
  writeFault :: "string \<rightharpoonup> error"
  wlog :: "string list"

datatype stat_result = StatOk | StatNotExist | StatErr error

definition osStat :: "store \<Rightarrow> string \<Rightarrow> stat_result" where
  "osStat fs p =
     (case statFault fs p of
        Some e \<Rightarrow> StatErr e
      | None \<Rightarrow> (case files fs p of Some d \<Rightarrow> StatOk | None \<Rightarrow> StatNotExist))"

definition osWriteFile :: "store \<Rightarrow> string \<Rightarrow> bytes \<Rightarrow> error + store" where
  "osWriteFile fs p d =
     (case writeFault fs p of
        Some e \<Rightarrow> Inl e
      | None \<Rightarrow> Inr (fs\<lparr>files := (files fs)(p \<mapsto> d), wlog := wlog fs @ [p]\<rparr>))"

section \<open>Key derivation: \<open>fn\<close>\<close>

text \<open>
  \<open>fn(xof, key, msgID)\<close> resets the XOF, writes the identifier, reads into the key
  buffer and encodes the buffer. The XOF and the buffer are shared by all calls, so both
  are passed in and returned. On a short read \<open>err\<close> is nil, and \<open>fmt.Errorf\<close> prints a
  nil operand of \<open>%w\<close> as \<open>%!w(<nil>)\<close> and wraps nothing.
\<close>

definition keySize :: nat where
  "keySize = 32"

definition fn :: "ext \<Rightarrow> bytes \<Rightarrow> bytes \<Rightarrow> string \<Rightarrow> error + (string \<times> bytes \<times> bytes)" where
  "fn x xof key msgID =
     (let xof1 = hashReset xof;
          xof2 = hashWrite xof1 msgID;
          (out, err) = xofRead x xof2 (length key);
          key' = out @ drop (length out) key
      in case err of
           Some e \<Rightarrow> Inl (Wrap ''xof read'' e)
         | None \<Rightarrow>
             if length out \<noteq> length key
             then Inl (E (''xof invalid read '' @ FormatInt (int (length out)) @ '': %!w(<nil>)''))
             else Inr (b32 x key', xof2, key'))"

section \<open>One mailbox: \<open>Worker.Iter\<close>\<close>

text \<open>The variables of \<open>Iter\<close> that live across loop iterations.\<close>

record locals =
  xof :: bytes
  key :: bytes
  existCount :: nat
  msgList :: "32 word list"
  buf :: bytes
  bodyBuf :: bytes
  bodyHasher :: bytes

text \<open>The body of the first loop (lines 108 to 124): derive the name, stat, count or queue.\<close>

definition scanStep :: "ext \<Rightarrow> Worker \<Rightarrow> store \<Rightarrow> locals \<Rightarrow> message \<Rightarrow> locals res" where
  "scanStep x w fs st msg =
     (case Envelope msg of
        None \<Rightarrow> Panic
      | Some env \<Rightarrow>
          (case fn x (xof st) (key st) (envMessageId env) of
             Inl e \<Rightarrow> Fail (Wrap ''fn'' e)
           | Inr (name, xof', key') \<Rightarrow>
               (case osStat fs (pathJoin x (Store w) name) of
                  StatOk \<Rightarrow> Done (st\<lparr>xof := xof', key := key', existCount := existCount st + 1\<rparr>)
                | StatNotExist \<Rightarrow>
                    Done (st\<lparr>xof := xof', key := key', msgList := msgList st @ [SeqNum msg]\<rparr>)
                | StatErr e \<Rightarrow> Fail (Wrap ''store stat'' e))))"

fun scanLoop :: "ext \<Rightarrow> Worker \<Rightarrow> store \<Rightarrow> locals \<Rightarrow> message list \<Rightarrow> locals res" where
  "scanLoop x w fs st [] = Done st"
| "scanLoop x w fs st (msg # rest) =
     (case scanStep x w fs st msg of
        Done st' \<Rightarrow> scanLoop x w fs st' rest
      | Fail e \<Rightarrow> Fail e
      | Panic \<Rightarrow> Panic)"

text \<open>
  \<open>io.Copy(bodyBuf, io.TeeReader(body, bodyHasher))\<close>: every chunk read from the body
  is written to the hasher and then appended to the buffer.
\<close>

fun teeCopy :: "bytes \<Rightarrow> bytes \<Rightarrow> bytes list \<Rightarrow> bytes \<times> bytes" where
  "teeCopy bb h [] = (bb, h)"
| "teeCopy bb h (c # cs) = teeCopy (bb @ c) (hashWrite h c) cs"

text \<open>Lines 186 to 194.\<close>

definition fromString :: "envelope \<Rightarrow> string" where
  "fromString env =
     (case envFrom env of
        [] \<Rightarrow> ''''
      | f # _ \<Rightarrow>
          if length (PersonalName f) > 0
          then PersonalName f @ '' <'' @ MailboxName f @ ''@'' @ HostName f @ ''>''
          else ''<'' @ MailboxName f @ ''@'' @ HostName f @ ''>'')"

text \<open>The struct literal of lines 196 to 205; a field it does not name is the empty string.\<close>

definition mkHeader ::
  "ext \<Rightarrow> string \<Rightarrow> string \<Rightarrow> envelope \<Rightarrow> string \<Rightarrow> bytes \<Rightarrow> bytes \<Rightarrow> Header" where
  "mkHeader x name folder env from bb h =
     \<lparr> Key = name,
       MessageID = envMessageId env,
       InReplyTo = '''',
       Date = formatTime x (envDate env),
       Folder = folder,
       Subject = envSubject env,
       From = from,
       Size = FormatInt (int (length bb)),
       Hash = sum256 x h \<rparr>"

definition headerSep :: bytes where
  "headerSep = ''---'' @ [CHR 0x0A]"

text \<open>
  The body of the second loop (lines 171 to 222). \<open>io.Copy(buf, bodyBuf)\<close> between two
  buffers cannot fail and empties \<open>bodyBuf\<close>.
\<close>

definition persistStep ::
  "ext \<Rightarrow> Worker \<Rightarrow> string \<Rightarrow> store \<Rightarrow> locals \<Rightarrow> message \<Rightarrow> (store \<times> locals) res" where
  "persistStep x w folder fs st msg =
     (let buf0 = [];
          bodyBuf0 = [];
          hasher0 = hashReset (bodyHasher st)
      in case Envelope msg of
           None \<Rightarrow> Panic
         | Some env \<Rightarrow>
             (case fn x (xof st) (key st) (envMessageId env) of
                Inl e \<Rightarrow> Fail (Wrap ''fn'' e)
              | Inr (name, xof', key') \<Rightarrow>
                  (case Body msg of
                     None \<Rightarrow> Panic
                   | Some body \<Rightarrow>
                       (let (bb, h) = teeCopy bodyBuf0 hasher0 (chunks body)
                        in case final body of
                             Some e \<Rightarrow> Fail (E ''hash body'')
                           | None \<Rightarrow>
                               (let hd = mkHeader x name folder env (fromString env) bb h
                                in case jsonEncode x hd of
                                     Inl e \<Rightarrow> Fail (Wrap ''marshal header'' e)
                                   | Inr js \<Rightarrow>
                                       (let buf1 = buf0 @ js @ headerSep @ bb
                                        in case osWriteFile fs (pathJoin x (Store w) name) buf1 of
                                             Inl e \<Rightarrow> Fail (Wrap ''write'' e)
                                           | Inr fs' \<Rightarrow>
                                               Done (fs', st\<lparr>xof := xof', key := key', buf := buf1,
                                                            bodyBuf := [], bodyHasher := h\<rparr>)))))))"

text \<open>The loop returns the store as it is when the loop ends, however it ends.\<close>

fun persistLoop ::
  "ext \<Rightarrow> Worker \<Rightarrow> string \<Rightarrow> store \<Rightarrow> locals \<Rightarrow> message list \<Rightarrow> store \<times> locals res" where
  "persistLoop x w folder fs st [] = (fs, Done st)"
| "persistLoop x w folder fs st (msg # rest) =
     (case persistStep x w folder fs st msg of
        Done (fs', st') \<Rightarrow> persistLoop x w folder fs' st' rest
      | Fail e \<Rightarrow> (fs, Fail e)
      | Panic \<Rightarrow> (fs, Panic))"

text \<open>
  What the \<open>select\<close> after a drained channel receives: the context is done (with
  \<open>ctx.Err()\<close>), or the fetch goroutine reports its result.
\<close>

datatype rendezvous = CtxDone error | FetchDone "error option"

text \<open>
  One mailbox as the session presents it: its name, the result of \<open>Select\<close>, the
  messages and the end of the envelope fetch, and for a set of sequence numbers the
  messages and the end of the body fetch. \<open>ctxErr\<close> is \<open>ctx.Err()\<close> when \<open>List\<close>
  reaches the mailbox.
\<close>

record mailbox =
  Name :: string
  ctxErr :: "error option"
  selectErr :: "error option"
  envMsgs :: "message list"
  envEnd :: rendezvous
  bodyFetch :: "32 word list \<Rightarrow> message list \<times> rendezvous"

definition initLocals :: locals where
  "initLocals = \<lparr> xof = [], key = replicate keySize (CHR 0x00), existCount = 0, msgList = [],
                  buf = [], bodyBuf = [], bodyHasher = [] \<rparr>"

text \<open>
  \<open>Iter\<close> returns the store it leaves and its result. The calls with constant arguments
  (\<open>ParseSeqSet\<close>, \<open>NewXOF\<close>, \<open>ParseBodySectionName\<close>, \<open>New256\<close>) do not fail, and logging
  is left out.
\<close>

definition Iter :: "ext \<Rightarrow> Worker \<Rightarrow> store \<Rightarrow> mailbox \<Rightarrow> store \<times> unit res" where
  "Iter x w fs mi =
     (case selectErr mi of
        Some e \<Rightarrow> (fs, Fail (Wrap ''select'' e))
      | None \<Rightarrow>
          (case scanLoop x w fs initLocals (envMsgs mi) of
             Fail e \<Rightarrow> (fs, Fail e)
           | Panic \<Rightarrow> (fs, Panic)
           | Done st \<Rightarrow>
               (case envEnd mi of
                  CtxDone e \<Rightarrow> (fs, Fail e)
                | FetchDone (Some e) \<Rightarrow>
                    if Contains (ErrorString e) ''No matching messages'' then (fs, Done ())
                    else (fs, Fail (Wrap ''fetch'' e))
                | FetchDone None \<Rightarrow>
                    if length (msgList st) = 0 then (fs, Done ())
                    else
                      (let (msgs, bodyEnd) = bodyFetch mi (msgList st)
                       in case persistLoop x w (Name mi) fs st msgs of
                            (fs', Fail e) \<Rightarrow> (fs', Fail e)
                          | (fs', Panic) \<Rightarrow> (fs', Panic)
                          | (fs', Done st') \<Rightarrow>
                              (case bodyEnd of
                                 CtxDone e \<Rightarrow> (fs', Fail e)
                               | FetchDone (Some e) \<Rightarrow> (fs', Fail e)
                               | FetchDone None \<Rightarrow> (fs', Done ()))))))"

section \<open>All mailboxes: \<open>Worker.List\<close>\<close>

record session =
  dialErr :: "error option"
  loginErr :: "error option"
  listed :: "mailbox list"
  listEnd :: rendezvous
  logoutErr :: "error option"

fun iterAll :: "ext \<Rightarrow> Worker \<Rightarrow> store \<Rightarrow> mailbox list \<Rightarrow> store \<times> unit res" where
  "iterAll x w fs [] = (fs, Done ())"
| "iterAll x w fs (mi # rest) =
     (case ctxErr mi of
        Some e \<Rightarrow> (fs, Fail e)
      | None \<Rightarrow>
          (case Iter x w fs mi of
             (fs', Fail e) \<Rightarrow> (fs', Fail (Wrap ''iter'' e))
           | (fs', Panic) \<Rightarrow> (fs', Panic)
           | (fs', Done u) \<Rightarrow> iterAll x w fs' rest))"

definition List :: "ext \<Rightarrow> Worker \<Rightarrow> store \<Rightarrow> string \<Rightarrow> session \<Rightarrow> store \<times> unit res" where
  "List x w fs server c =
     (case dialErr c of
        Some e \<Rightarrow> (fs, Fail e)
      | None \<Rightarrow>
          (case loginErr c of
             Some e \<Rightarrow> (fs, Fail (Wrap (''login to '' @ server) e))
           | None \<Rightarrow>
               (case listEnd c of
                  FetchDone (Some e) \<Rightarrow> (fs, Fail (Wrap ''list'' e))
                | _ \<Rightarrow>
                    (case iterAll x w fs (listed c) of
                       (fs', Done u) \<Rightarrow>
                         (case logoutErr c of Some e \<Rightarrow> (fs', Fail e) | None \<Rightarrow> (fs', Done ()))
                     | (fs', r) \<Rightarrow> (fs', r)))))"

section \<open>Derived notions and concrete instances\<close>

text \<open>
  Small stand-ins for the external functions and a small session, on which the theorems
  below are instantiated. \<open>demoExt\<close> pads or cuts the written bytes to the length asked
  for, takes the reversed input as digest, and prints a header as its key, in-reply-to,
  size and hash fields.
\<close>

definition demoExt :: ext where
  "demoExt = \<lparr> xofRead = (\<lambda>a n. (take n (a @ replicate n (CHR ''.'')), None)),
               sum256 = (\<lambda>a. rev a),
               b32 = (\<lambda>k. k),
               jsonEncode = (\<lambda>h. Inr (Key h @ ''|'' @ InReplyTo h @ ''|'' @ Size h @ ''|'' @ Hash h)),
               formatTime = (\<lambda>t. ''T''),
               pathJoin = (\<lambda>d n. d @ ''/'' @ n) \<rparr>"

definition demoWorker :: Worker where
  "demoWorker = \<lparr> Verbose = False, Store = ''st'' \<rparr>"

definition emptyStore :: store where
  "emptyStore = \<lparr> files = Map.empty, statFault = Map.empty, writeFault = Map.empty, wlog = [] \<rparr>"

definition demoEnv :: "string \<Rightarrow> envelope" where
  "demoEnv mid = \<lparr> envDate = \<lparr> unixNanos = 0, zoneOffset = 0 \<rparr>, envSubject = ''hello'',
                   envFrom = [\<lparr> PersonalName = ''Ann'', MailboxName = ''ann'', HostName = ''x'' \<rparr>],
                   envInReplyTo = ''parent@x'', envMessageId = mid \<rparr>"

definition demoMsg :: "32 word \<Rightarrow> string \<Rightarrow> reader option \<Rightarrow> message" where
  "demoMsg n mid body = \<lparr> SeqNum = n, Uid = n, Envelope = Some (demoEnv mid), Body = body \<rparr>"

definition smallLocals :: locals where
  "smallLocals = \<lparr> xof = ''old'', key = ''0000'', existCount = 0, msgList = [],
                   buf = ''junk'', bodyBuf = ''junk'', bodyHasher = ''junk'' \<rparr>"

text \<open>
  The store holds a file for the key of a message: the name derived from the message's
  identifier, as \<open>Iter\<close> derives it, is the name of a file that \<open>os.Stat\<close> finds.
\<close>

definition stored :: "ext \<Rightarrow> Worker \<Rightarrow> store \<Rightarrow> message \<Rightarrow> bool" where
  "stored x w fs msg =
     (case Envelope msg of
        None \<Rightarrow> False
      | Some env \<Rightarrow>
          (case fn x [] (replicate keySize (CHR 0x00)) (envMessageId env) of
             Inl e \<Rightarrow> False
           | Inr (name, xof', key') \<Rightarrow> osStat fs (pathJoin x (Store w) name) = StatOk))"

text \<open>
  A mailbox of an unchanged, fully archived session: the context is live, the select and
  the envelope fetch succeed, and every message of the mailbox is stored.
\<close>

definition settled :: "ext \<Rightarrow> Worker \<Rightarrow> store \<Rightarrow> mailbox \<Rightarrow> bool" where
  "settled x w fs mi =
     (ctxErr mi = None \<and> selectErr mi = None \<and> envEnd mi = FetchDone None \<and>
      list_all (stored x w fs) (envMsgs mi))"

definition demoSession :: "mailbox list \<Rightarrow> session" where
  "demoSession boxes = \<lparr> dialErr = None, loginErr = None, listed = boxes,
                         listEnd = FetchDone None, logoutErr = None \<rparr>"

text \<open>An empty mailbox whose envelope fetch ends with the server's "no matching messages".\<close>

definition emptyBox :: mailbox where
  "emptyBox = \<lparr> Name = ''Empty'', ctxErr = None, selectErr = None,
                envMsgs = [], envEnd = FetchDone (Some (E ''No matching messages'')),
                bodyFetch = (\<lambda>ss. ([], FetchDone None)) \<rparr>"

text \<open>
  A mailbox with one message at scan time whose body fetch ends with "no matching
  messages" (the message is gone when the bodies are asked for).
\<close>

definition staleBox :: mailbox where
  "staleBox = \<lparr> Name = ''Empty'', ctxErr = None, selectErr = None,
                envMsgs = [demoMsg 1 ''a@x'' None], envEnd = FetchDone None,
                bodyFetch = (\<lambda>ss. ([], FetchDone (Some (E ''No matching messages'')))) \<rparr>"

text \<open>A mailbox whose second body cannot be read to its end.\<close>

definition failBox :: mailbox where
  "failBox = \<lparr> Name = ''INBOX'', ctxErr = None, selectErr = None,
               envMsgs = [demoMsg 1 ''a@x'' None, demoMsg 2 ''b@x'' None], envEnd = FetchDone None,
               bodyFetch = (\<lambda>ss. ([demoMsg 1 ''a@x'' (Some (Reader [''B1''] None)),
                                    demoMsg 2 ''b@x'' (Some (Reader [''B''] (Some (E ''connection reset''))))],
                                   FetchDone None)) \<rparr>"

text \<open>A mailbox whose envelope fetch ends with a protocol failure.\<close>

definition brokenBox :: mailbox where
  "brokenBox = \<lparr> Name = ''INBOX'', ctxErr = None, selectErr = None,
               envMsgs = [demoMsg 1 ''a@x'' None], envEnd = FetchDone (Some (E ''connection reset'')),
               bodyFetch = (\<lambda>ss. ([], FetchDone None)) \<rparr>"

text \<open>A mailbox with two messages, both delivered with their bodies.\<close>

definition okBox :: mailbox where
  "okBox = \<lparr> Name = ''INBOX'', ctxErr = None, selectErr = None,
             envMsgs = [demoMsg 1 ''a@x'' None, demoMsg 2 ''b@x'' None], envEnd = FetchDone None,
             bodyFetch = (\<lambda>ss. ([demoMsg 1 ''a@x'' (Some (Reader [''B1''] None)),
                                  demoMsg 2 ''b@x'' (Some (Reader [''B'', ''2''] None))],
                                 FetchDone None)) \<rparr>"

text \<open>A mailbox whose body fetch delivers one message and then ends with a protocol failure.\<close>

definition cutBox :: mailbox where
  "cutBox = \<lparr> Name = ''INBOX'', ctxErr = None, selectErr = None,
              envMsgs = [demoMsg 1 ''a@x'' None, demoMsg 2 ''b@x'' None], envEnd = FetchDone None,
              bodyFetch = (\<lambda>ss. ([demoMsg 1 ''a@x'' (Some (Reader [''B1''] None))],
                                  FetchDone (Some (E ''connection reset'')))) \<rparr>"

text \<open>
  The key \<open>Iter\<close> derives for an identifier: \<open>fn\<close> on a fresh XOF and the zeroed
  32-byte buffer of lines 94 to 99; \<open>None\<close> when \<open>fn\<close> returns an error.
\<close>

definition deriveKey :: "ext \<Rightarrow> string \<Rightarrow> bytes option" where
  "deriveKey x msgID =
     (case fn x [] (replicate keySize (CHR 0x00)) msgID of
        Inl e \<Rightarrow> None
      | Inr (name, xof', key') \<Rightarrow> Some key')"

text \<open>
  The path under which \<open>Iter\<close> stores a message: the name derived from its identifier,
  joined to the store directory.
\<close>

definition storePath :: "ext \<Rightarrow> Worker \<Rightarrow> message \<Rightarrow> string option" where
  "storePath x w msg =
     (case Envelope msg of
        None \<Rightarrow> None
      | Some env \<Rightarrow>
          (case fn x [] (replicate keySize (CHR 0x00)) (envMessageId env) of
             Inl e \<Rightarrow> None
           | Inr (name, xof', key') \<Rightarrow> Some (pathJoin x (Store w) name)))"

text \<open>
  The session serves a mailbox as asked, on the store the mailbox is reached with: the
  envelope fetch numbers its messages without repetition, and the body fetch delivers
  only sequence numbers that were requested, with the envelopes the scan saw, and no two
  messages with the same store path.
\<close>

definition servedNow :: "ext \<Rightarrow> Worker \<Rightarrow> store \<Rightarrow> mailbox \<Rightarrow> bool" where
  "servedNow x w fs mi =
     (case scanLoop x w fs initLocals (envMsgs mi) of
        Done st \<Rightarrow>
          distinct (map SeqNum (envMsgs mi)) \<and>
          list_all (\<lambda>m. SeqNum m \<in> set (msgList st) \<and>
                        list_ex (\<lambda>m'. SeqNum m' = SeqNum m \<and> Envelope m' = Envelope m) (envMsgs mi))
            (fst (bodyFetch mi (msgList st))) \<and>
          distinct (map (storePath x w) (fst (bodyFetch mi (msgList st))))
      | Fail e \<Rightarrow> True
      | Panic \<Rightarrow> True)"

fun servedRun :: "ext \<Rightarrow> Worker \<Rightarrow> store \<Rightarrow> mailbox list \<Rightarrow> bool" where
  "servedRun x w fs [] = True"
| "servedRun x w fs (mi # rest) =
     (servedNow x w fs mi \<and> servedRun x w (fst (Iter x w fs mi)) rest)"

text \<open>A mailbox in which two messages carry the same identifier.\<close>

definition dupBox :: mailbox where
  "dupBox = \<lparr> Name = ''INBOX'', ctxErr = None, selectErr = None,
              envMsgs = [demoMsg 1 ''a@x'' None, demoMsg 2 ''a@x'' None], envEnd = FetchDone None,
              bodyFetch = (\<lambda>ss. (filter (\<lambda>m. SeqNum m \<in> set ss)
                                    [demoMsg 1 ''a@x'' (Some (Reader [''B1''] None)),
                                     demoMsg 2 ''a@x'' (Some (Reader [''B2''] None))],
                                  FetchDone None)) \<rparr>"

text \<open>Two mailboxes that share the message \<open>b@x\<close>, served as asked.\<close>

definition inboxBox :: mailbox where
  "inboxBox = \<lparr> Name = ''INBOX'', ctxErr = None, selectErr = None,
                envMsgs = [demoMsg 1 ''a@x'' None, demoMsg 2 ''b@x'' None], envEnd = FetchDone None,
                bodyFetch = (\<lambda>ss. (filter (\<lambda>m. SeqNum m \<in> set ss)
                                      [demoMsg 1 ''a@x'' (Some (Reader [''B1''] None)),
                                       demoMsg 2 ''b@x'' (Some (Reader [''B2''] None))],
                                    FetchDone None)) \<rparr>"

definition archiveBox :: mailbox where
  "archiveBox = \<lparr> Name = ''Archive'', ctxErr = None, selectErr = None,
                  envMsgs = [demoMsg 1 ''b@x'' None, demoMsg 2 ''c@x'' None], envEnd = FetchDone None,
                  bodyFetch = (\<lambda>ss. (filter (\<lambda>m. SeqNum m \<in> set ss)
                                        [demoMsg 1 ''b@x'' (Some (Reader [''B2''] None)),
                                         demoMsg 2 ''c@x'' (Some (Reader [''B3''] None))],
                                      FetchDone None)) \<rparr>"

text \<open>
  Two mailboxes in which two messages carry the same identifier: in the first the body
  of the second copy cannot be read to its end, in the second the body fetch ends with a
  protocol failure before the second copy is delivered.
\<close>

definition dupFailBox :: mailbox where
  "dupFailBox = \<lparr> Name = ''INBOX'', ctxErr = None, selectErr = None,
                  envMsgs = [demoMsg 1 ''a@x'' None, demoMsg 2 ''a@x'' None], envEnd = FetchDone None,
                  bodyFetch = (\<lambda>ss. (filter (\<lambda>m. SeqNum m \<in> set ss)
                                        [demoMsg 1 ''a@x'' (Some (Reader [''B1''] None)),
                                         demoMsg 2 ''a@x''
                                           (Some (Reader [''B''] (Some (E ''connection reset''))))],
                                      FetchDone None)) \<rparr>"

definition dupCutBox :: mailbox where
  "dupCutBox = \<lparr> Name = ''INBOX'', ctxErr = None, selectErr = None,
                 envMsgs = [demoMsg 1 ''a@x'' None, demoMsg 2 ''a@x'' None], envEnd = FetchDone None,
                 bodyFetch = (\<lambda>ss. (filter (\<lambda>m. SeqNum m \<in> set ss)
                                       [demoMsg 1 ''a@x'' (Some (Reader [''B1''] None))],
                                     FetchDone (Some (E ''connection reset'')))) \<rparr>"

section \<open>Auxiliary facts\<close>

lemma teeCopy_eq: "teeCopy bb h cs = (bb @ concat cs, h @ concat cs)"
  by (induction cs arbitrary: bb h) (simp_all add: hashWrite_def)

lemma fn_Inr_D:
  "fn x s k m = Inr (name, s', k') \<Longrightarrow>
     s' = m \<and> k' = fst (xofRead x m (length k)) \<and> length k' = length k \<and> name = b32 x k'"
  by (auto simp: fn_def hashReset_def hashWrite_def Let_def split: prod.splits option.splits if_splits)

lemma fn_state_free: "length k1 = length k2 \<Longrightarrow> fn x s1 k1 m = fn x s2 k2 m"
  by (auto simp: fn_def hashReset_def hashWrite_def Let_def split: prod.splits option.splits)

lemmas demo_defs =
  demoExt_def demoWorker_def emptyStore_def demoEnv_def demoMsg_def smallLocals_def
  fn_def hashReset_def hashWrite_def Let_def osStat_def osWriteFile_def
  scanStep_def persistStep_def mkHeader_def fromString_def headerSep_def FormatInt_def
  natDec.simps

lemma persistStep_Done_D:
  assumes "persistStep x w folder fs st msg = Done (fs', st')"
  shows "\<exists>env name xof' key' body js.
           Envelope msg = Some env \<and>
           fn x (xof st) (key st) (envMessageId env) = Inr (name, xof', key') \<and>
           Body msg = Some body \<and> final body = None \<and>
           writeFault fs (pathJoin x (Store w) name) = None \<and>
           fs' = fs\<lparr>files := (files fs)(pathJoin x (Store w) name \<mapsto> js @ headerSep @ concat (chunks body)),
                    wlog := wlog fs @ [pathJoin x (Store w) name]\<rparr> \<and>
           xof st' = xof' \<and> key st' = key' \<and> msgList st' = msgList st \<and> existCount st' = existCount st"
  using assms
  by (auto simp: persistStep_def Let_def teeCopy_eq hashReset_def osWriteFile_def
           split: option.splits sum.splits prod.splits)

lemma scanStep_stored:
  assumes "stored x w fs msg" "length (key st) = keySize"
  shows "\<exists>st'. scanStep x w fs st msg = Done st' \<and> msgList st' = msgList st \<and>
               existCount st' = existCount st + 1 \<and> length (key st') = keySize"
proof -
  from assms(1) obtain env name xof' key' where
    e: "Envelope msg = Some env"
    and f: "fn x [] (replicate keySize (CHR 0x00)) (envMessageId env) = Inr (name, xof', key')"
    and s: "osStat fs (pathJoin x (Store w) name) = StatOk"
    by (auto simp: stored_def split: option.splits sum.splits)
  have "fn x (xof st) (key st) (envMessageId env) = Inr (name, xof', key')"
    using fn_state_free [of "key st" "replicate keySize (CHR 0x00)" x "xof st" "envMessageId env" "[]"]
      assms(2) f by simp
  moreover from this have "length key' = keySize" using fn_Inr_D assms(2) by fastforce
  ultimately show ?thesis using e s by (simp add: scanStep_def)
qed

lemma scanLoop_stored:
  "list_all (stored x w fs) msgs \<Longrightarrow> length (key st) = keySize \<Longrightarrow>
     \<exists>st'. scanLoop x w fs st msgs = Done st' \<and> msgList st' = msgList st \<and>
           existCount st' = existCount st + length msgs"
proof (induction msgs arbitrary: st)
  case Nil
  then show ?case by simp
next
  case (Cons m ms)
  from Cons.prems obtain st1 where
    s1: "scanStep x w fs st m = Done st1" "msgList st1 = msgList st"
        "existCount st1 = existCount st + 1" "length (key st1) = keySize"
    using scanStep_stored [of x w fs m st] by auto
  from Cons.IH [of st1] Cons.prems s1 obtain st' where
    "scanLoop x w fs st1 ms = Done st'" "msgList st' = msgList st1"
    "existCount st' = existCount st1 + length ms"
    by auto
  with s1 show ?case by simp
qed

lemma Iter_settled:
  assumes "settled x w fs mi"
  shows "Iter x w fs mi = (fs, Done ())"
proof -
  from assms have a: "selectErr mi = None" "envEnd mi = FetchDone None"
    "list_all (stored x w fs) (envMsgs mi)"
    by (simp_all add: settled_def)
  from scanLoop_stored [OF a(3), of initLocals] obtain st where
    "scanLoop x w fs initLocals (envMsgs mi) = Done st" "msgList st = []"
    by (auto simp: initLocals_def)
  with a show ?thesis by (simp add: Iter_def)
qed

lemma iterAll_settled: "list_all (settled x w fs) mis \<Longrightarrow> iterAll x w fs mis = (fs, Done ())"
proof (induction mis)
  case Nil
  then show ?case by simp
next
  case (Cons mi mis)
  then have "ctxErr mi = None" "Iter x w fs mi = (fs, Done ())"
    using Iter_settled by (simp_all add: settled_def)
  with Cons show ?case by simp
qed

lemma iterAll_append:
  "iterAll x w fs0 before = (fs, Done ()) \<Longrightarrow> iterAll x w fs0 (before @ rest) = iterAll x w fs rest"
proof (induction before arbitrary: fs0)
  case Nil
  then show ?case by simp
next
  case (Cons mi mis)
  then show ?case
    by (auto split: option.splits prod.splits res.splits)
qed

lemma List_reaches:
  assumes "dialErr c = None" "loginErr c = None" "listEnd c = FetchDone None"
    "listed c = before @ mi # rest" "iterAll x w fs0 before = (fs, Done ())"
    "ctxErr mi = None" "Iter x w fs mi = (fs', Fail e)"
  shows "List x w fs0 server c = (fs', Fail (Wrap ''iter'' e))"
  using assms iterAll_append [OF assms(5), of "mi # rest"]
  by (simp add: List_def)

lemma persistLoop_append:
  "persistLoop x w folder fs st pre = (fs1, Done st1) \<Longrightarrow>
     persistLoop x w folder fs st (pre @ rest) = persistLoop x w folder fs1 st1 rest"
proof (induction pre arbitrary: fs st)
  case Nil
  then show ?case by simp
next
  case (Cons m ms)
  then show ?case by (auto split: res.splits prod.splits)
qed

lemma persistLoop_writes:
  "persistLoop x w folder fs st msgs = (fs', Done st') \<Longrightarrow>
     length (wlog fs') = length (wlog fs) + length msgs"
proof (induction msgs arbitrary: fs st)
  case Nil
  then show ?case by simp
next
  case (Cons m ms)
  from Cons.prems obtain fs1 st1 where
    s: "persistStep x w folder fs st m = Done (fs1, st1)"
    and l: "persistLoop x w folder fs1 st1 ms = (fs', Done st')"
    by (auto split: res.splits prod.splits)
  from persistStep_Done_D [OF s] have "length (wlog fs1) = length (wlog fs) + 1" by auto
  with Cons.IH [OF l] show ?case by simp
qed

lemma persistStep_read_failure:
  "Envelope m = Some env \<Longrightarrow> fn x (xof st) (key st) (envMessageId env) = Inr r \<Longrightarrow>
   Body m = Some rd \<Longrightarrow> final rd = Some e \<Longrightarrow>
   persistStep x w folder fs st m = Fail (E ''hash body'')"
  by (auto simp: persistStep_def Let_def split: prod.splits)

lemma storePath_Envelope: "Envelope m = Envelope m' \<Longrightarrow> storePath x w m = storePath x w m'"
  by (simp add: storePath_def)

lemma storePath_fn:
  assumes "Envelope msg = Some env" "fn x s k (envMessageId env) = Inr (name, s', k')"
    "length k = keySize"
  shows "storePath x w msg = Some (pathJoin x (Store w) name)"
proof -
  have "fn x [] (replicate keySize (CHR 0x00)) (envMessageId env) = fn x s k (envMessageId env)"
    using assms(3) by (intro fn_state_free) simp
  with assms(1,2) show ?thesis by (simp add: storePath_def)
qed

lemma scanStep_Done_D:
  assumes "scanStep x w fs st msg = Done st'" "length (key st) = keySize"
  shows "length (key st') = keySize \<and>
         (msgList st' = msgList st \<or>
          (msgList st' = msgList st @ [SeqNum msg] \<and>
           (\<exists>p. storePath x w msg = Some p \<and> files fs p = None)))"
proof -
  from assms(1) obtain env name xof' key' where
    e: "Envelope msg = Some env"
    and f: "fn x (xof st) (key st) (envMessageId env) = Inr (name, xof', key')"
    by (auto simp: scanStep_def split: option.splits sum.splits)
  from fn_Inr_D [OF f] assms(2) have k: "length key' = keySize" by metis
  from storePath_fn [OF e f assms(2)] have p: "storePath x w msg = Some (pathJoin x (Store w) name)" .
  from assms(1) e f k p show ?thesis
    by (auto simp: scanStep_def osStat_def split: stat_result.splits option.splits)
qed

lemma scanLoop_pending:
  "scanLoop x w fs st msgs = Done st' \<Longrightarrow> length (key st) = keySize \<Longrightarrow>
     length (key st') = keySize \<and>
     (\<exists>new. msgList st' = msgList st @ new \<and>
        (\<forall>n\<in>set new. \<exists>m\<in>set msgs. SeqNum m = n \<and>
            (\<exists>p. storePath x w m = Some p \<and> files fs p = None)))"
proof (induction msgs arbitrary: st)
  case Nil
  then show ?case by simp
next
  case (Cons m ms)
  from Cons.prems(1) obtain st1 where
    s: "scanStep x w fs st m = Done st1" and l: "scanLoop x w fs st1 ms = Done st'"
    by (auto split: res.splits)
  from scanStep_Done_D [OF s Cons.prems(2)] have
    k1: "length (key st1) = keySize"
    and c: "msgList st1 = msgList st \<or>
          (msgList st1 = msgList st @ [SeqNum m] \<and>
           (\<exists>p. storePath x w m = Some p \<and> files fs p = None))"
    by auto
  from Cons.IH [OF l k1] obtain new where
    k: "length (key st') = keySize" and n: "msgList st' = msgList st1 @ new"
    and a: "\<forall>n\<in>set new. \<exists>m\<in>set ms. SeqNum m = n \<and>
            (\<exists>p. storePath x w m = Some p \<and> files fs p = None)"
    by auto
  from c show ?case
  proof
    assume "msgList st1 = msgList st"
    with k n a show ?thesis by auto
  next
    assume h: "msgList st1 = msgList st @ [SeqNum m] \<and>
           (\<exists>p. storePath x w m = Some p \<and> files fs p = None)"
    with n have "msgList st' = msgList st @ (SeqNum m # new)" by simp
    moreover from h a have "\<forall>n\<in>set (SeqNum m # new). \<exists>m'\<in>set (m # ms). SeqNum m' = n \<and>
            (\<exists>p. storePath x w m' = Some p \<and> files fs p = None)"
      by auto
    ultimately show ?thesis using k by blast
  qed
qed

lemma persistStep_Done_path:
  assumes "persistStep x w folder fs st msg = Done (fs', st')" "length (key st) = keySize"
  shows "\<exists>p d. storePath x w msg = Some p \<and>
           fs' = fs\<lparr>files := (files fs)(p \<mapsto> d), wlog := wlog fs @ [p]\<rparr> \<and>
           length (key st') = keySize"
proof -
  from persistStep_Done_D [OF assms(1)] obtain env name xof' key' d where
    e: "Envelope msg = Some env"
    and f: "fn x (xof st) (key st) (envMessageId env) = Inr (name, xof', key')"
    and fs': "fs' = fs\<lparr>files := (files fs)(pathJoin x (Store w) name \<mapsto> d),
                    wlog := wlog fs @ [pathJoin x (Store w) name]\<rparr>"
    and k: "key st' = key'"
    by auto
  from fn_Inr_D [OF f] assms(2) k have "length (key st') = keySize" by metis
  with storePath_fn [OF e f assms(2)] fs' show ?thesis by blast
qed

lemma persistLoop_log:
  "persistLoop x w folder fs st msgs = (fs', r) \<Longrightarrow> length (key st) = keySize \<Longrightarrow>
     \<exists>new k. wlog fs' = wlog fs @ new \<and> map Some new = map (storePath x w) (take k msgs) \<and>
        (\<forall>p. p \<notin> set new \<longrightarrow> files fs' p = files fs p) \<and>
        (\<forall>p\<in>set new. files fs' p \<noteq> None)"
proof (induction msgs arbitrary: fs st)
  case Nil
  then have "wlog fs' = wlog fs @ [] \<and> map Some [] = map (storePath x w) (take 0 [])
     \<and> (\<forall>p. p \<notin> set [] \<longrightarrow> files fs' p = files fs p)" by simp
  then show ?case by (metis empty_iff empty_set)
next
  case (Cons m ms)
  show ?case
  proof (cases "persistStep x w folder fs st m")
    case (Done a)
    then obtain fs1 st1 where s: "persistStep x w folder fs st m = Done (fs1, st1)"
      by (cases a) simp
    with Cons.prems(1) have l: "persistLoop x w folder fs1 st1 ms = (fs', r)" by simp
    from persistStep_Done_path [OF s Cons.prems(2)] obtain p d where
      p: "storePath x w m = Some p"
      and fs1: "fs1 = fs\<lparr>files := (files fs)(p \<mapsto> d), wlog := wlog fs @ [p]\<rparr>"
      and k1: "length (key st1) = keySize"
      by blast
    from Cons.IH [OF l k1] obtain new k where
      n: "wlog fs' = wlog fs1 @ new" "map Some new = map (storePath x w) (take k ms)"
        "\<forall>q. q \<notin> set new \<longrightarrow> files fs' q = files fs1 q" "\<forall>q\<in>set new. files fs' q \<noteq> None"
      by blast
    have 1: "wlog fs' = wlog fs @ (p # new)" using n(1) fs1 by simp
    have 2: "map Some (p # new) = map (storePath x w) (take (Suc k) (m # ms))"
      using n(2) p by simp
    have 3: "\<forall>q. q \<notin> set (p # new) \<longrightarrow> files fs' q = files fs q" using n(3) fs1 by simp
    have 4: "\<forall>q\<in>set (p # new). files fs' q \<noteq> None"
    proof
      fix q assume "q \<in> set (p # new)"
      then show "files fs' q \<noteq> None"
        using n(3,4) fs1 by (cases "q \<in> set new") auto
    qed
    from 1 2 3 4 show ?thesis by blast
  next
    case (Fail e)
    with Cons.prems(1) have "fs' = fs" by simp
    then have "wlog fs' = wlog fs @ [] \<and> map Some [] = map (storePath x w) (take 0 (m # ms))
       \<and> (\<forall>p. p \<notin> set [] \<longrightarrow> files fs' p = files fs p)" by simp
    then show ?thesis by (metis empty_iff empty_set)
  next
    case Panic
    with Cons.prems(1) have "fs' = fs" by simp
    then have "wlog fs' = wlog fs @ [] \<and> map Some [] = map (storePath x w) (take 0 (m # ms))
       \<and> (\<forall>p. p \<notin> set [] \<longrightarrow> files fs' p = files fs p)" by simp
    then show ?thesis by (metis empty_iff empty_set)
  qed
qed

lemma Iter_cases:
  "Iter x w fs mi = (fs', r) \<Longrightarrow>
     fs' = fs \<or>
     (\<exists>st r'. scanLoop x w fs initLocals (envMsgs mi) = Done st \<and>
        persistLoop x w (Name mi) fs st (fst (bodyFetch mi (msgList st))) = (fs', r'))"
  by (auto simp: Iter_def split: option.splits res.splits rendezvous.splits if_splits prod.splits)


lemma Iter_writes:
  assumes i: "Iter x w fs mi = (fs', r)" and sv: "servedNow x w fs mi"
  shows "\<exists>new. wlog fs' = wlog fs @ new \<and> distinct new \<and>
           (\<forall>p\<in>set new. files fs p = None \<and> files fs' p \<noteq> None) \<and>
           (\<forall>p. p \<notin> set new \<longrightarrow> files fs' p = files fs p)"
proof -
  from Iter_cases [OF i] show ?thesis
  proof
    assume "fs' = fs"
    then have "wlog fs' = wlog fs @ [] \<and> distinct ([] :: string list) \<and>
        (\<forall>p. p \<notin> set [] \<longrightarrow> files fs' p = files fs p)" by simp
    then show ?thesis by (metis empty_iff empty_set)
  next
    assume "\<exists>st r'. scanLoop x w fs initLocals (envMsgs mi) = Done st \<and>
        persistLoop x w (Name mi) fs st (fst (bodyFetch mi (msgList st))) = (fs', r')"
    then obtain st r' where
      sc: "scanLoop x w fs initLocals (envMsgs mi) = Done st"
      and pl: "persistLoop x w (Name mi) fs st (fst (bodyFetch mi (msgList st))) = (fs', r')"
      by blast
    let ?del = "fst (bodyFetch mi (msgList st))"
    from sv sc have
      ds: "distinct (map SeqNum (envMsgs mi))"
      and dl: "\<forall>m\<in>set ?del. SeqNum m \<in> set (msgList st) \<and>
                 (\<exists>m'\<in>set (envMsgs mi). SeqNum m' = SeqNum m \<and> Envelope m' = Envelope m)"
      and dp: "distinct (map (storePath x w) ?del)"
      by (simp_all add: servedNow_def list_all_iff list_ex_iff)
    have k0: "length (key initLocals) = keySize" by (simp add: initLocals_def)
    from scanLoop_pending [OF sc k0] have
      k: "length (key st) = keySize"
      and pend: "\<forall>n\<in>set (msgList st). \<exists>m\<in>set (envMsgs mi). SeqNum m = n \<and>
            (\<exists>p. storePath x w m = Some p \<and> files fs p = None)"
      by (auto simp: initLocals_def)
    from persistLoop_log [OF pl k] obtain new j where
      n: "wlog fs' = wlog fs @ new" "map Some new = map (storePath x w) (take j ?del)"
        "\<forall>p. p \<notin> set new \<longrightarrow> files fs' p = files fs p" "\<forall>p\<in>set new. files fs' p \<noteq> None"
      by blast
    have "distinct (map (storePath x w) (take j ?del))"
      using dp by (simp add: take_map [symmetric])
    with n(2) have "distinct (map Some new)" by simp
    then have d: "distinct new" by (simp add: distinct_map)
    have a: "files fs p = None" if "p \<in> set new" for p
    proof -
      from that have "Some p \<in> set (map Some new)" by simp
      with n(2) have "Some p \<in> set (map (storePath x w) (take j ?del))" by simp
      then obtain m where m: "m \<in> set ?del" "storePath x w m = Some p"
        by (auto dest: in_set_takeD)
      from dl m(1) obtain m' where
        m': "SeqNum m \<in> set (msgList st)" "m' \<in> set (envMsgs mi)" "SeqNum m' = SeqNum m"
          "Envelope m' = Envelope m"
        by blast
      from pend m'(1) obtain m'' q where
        m'': "m'' \<in> set (envMsgs mi)" "SeqNum m'' = SeqNum m" "storePath x w m'' = Some q"
          "files fs q = None"
        by blast
      from ds have "inj_on SeqNum (set (envMsgs mi))" by (simp add: distinct_map)
      with m'(2,3) m''(1,2) have "m'' = m'" by (simp add: inj_on_def)
      with m''(3) storePath_Envelope [OF m'(4), of x w] m(2) have "q = p" by simp
      with m''(4) show ?thesis by simp
    qed
    from n(1) d a n(4) n(3) show ?thesis by blast
  qed
qed

lemma iterAll_writes:
  "iterAll x w fs mis = (fs', r) \<Longrightarrow> servedRun x w fs mis \<Longrightarrow>
     \<exists>new. wlog fs' = wlog fs @ new \<and> distinct new \<and>
           (\<forall>p\<in>set new. files fs p = None \<and> files fs' p \<noteq> None) \<and>
           (\<forall>p. p \<notin> set new \<longrightarrow> files fs' p = files fs p)"
proof (induction mis arbitrary: fs)
  case Nil
  then have "wlog fs' = wlog fs @ [] \<and> distinct ([] :: string list) \<and>
        (\<forall>p. p \<notin> set [] \<longrightarrow> files fs' p = files fs p)" by simp
  then show ?case by (metis empty_iff empty_set)
next
  case (Cons mi rest)
  obtain fs1 r1 where i: "Iter x w fs mi = (fs1, r1)" by (cases "Iter x w fs mi")
  from Cons.prems(2) i have sv: "servedNow x w fs mi" and sr: "servedRun x w fs1 rest" by simp_all
  from Iter_writes [OF i sv] obtain new1 where
    n1: "wlog fs1 = wlog fs @ new1" "distinct new1"
      "\<forall>p\<in>set new1. files fs p = None \<and> files fs1 p \<noteq> None"
      "\<forall>p. p \<notin> set new1 \<longrightarrow> files fs1 p = files fs p"
    by blast
  show ?case
  proof (cases "ctxErr mi = None \<and> r1 = Done ()")
    case True
    with Cons.prems(1) i have "iterAll x w fs1 rest = (fs', r)" by simp
    from Cons.IH [OF this sr] obtain new2 where
      n2: "wlog fs' = wlog fs1 @ new2" "distinct new2"
        "\<forall>p\<in>set new2. files fs1 p = None \<and> files fs' p \<noteq> None"
        "\<forall>p. p \<notin> set new2 \<longrightarrow> files fs' p = files fs1 p"
      by blast
    have dj: "set new1 \<inter> set new2 = {}" using n1(3) n2(3) by blast
    have 1: "wlog fs' = wlog fs @ (new1 @ new2)" using n1(1) n2(1) by simp
    have 2: "distinct (new1 @ new2)" using n1(2) n2(2) dj by simp
    have 3: "\<forall>p\<in>set (new1 @ new2). files fs p = None \<and> files fs' p \<noteq> None"
    proof
      fix p assume "p \<in> set (new1 @ new2)"
      then consider "p \<in> set new1" "p \<notin> set new2" | "p \<in> set new2" "p \<notin> set new1"
        using dj by auto
      then show "files fs p = None \<and> files fs' p \<noteq> None"
        using n1(3,4) n2(3,4) by cases auto
    qed
    have 4: "\<forall>p. p \<notin> set (new1 @ new2) \<longrightarrow> files fs' p = files fs p"
      using n1(4) n2(4) by simp
    from 1 2 3 4 show ?thesis by blast
  next
    case False
    with Cons.prems(1) i have "fs' = fs1 \<or> fs' = fs"
      by (auto split: option.splits res.splits)
    then show ?thesis
    proof
      assume "fs' = fs1"
      with n1 show ?thesis by blast
    next
      assume "fs' = fs"
      then have "wlog fs' = wlog fs @ [] \<and> distinct ([] :: string list) \<and>
        (\<forall>p. p \<notin> set [] \<longrightarrow> files fs' p = files fs p)" by simp
      then show ?thesis by (metis empty_iff empty_set)
    qed
  qed
qed

lemma List_store:
  "List x w fs server c = (fs', r) \<Longrightarrow> fs' = fs \<or> (\<exists>r'. iterAll x w fs (listed c) = (fs', r'))"
  by (auto simp: List_def split: option.splits rendezvous.splits res.splits prod.splits)

lemma pending_absent:
  assumes sc: "scanLoop x w fs initLocals msgs = Done st"
    and ds: "distinct (map SeqNum msgs)"
    and m: "m \<in> set msgs" "SeqNum m \<in> set (msgList st)"
  shows "\<exists>p. storePath x w m = Some p \<and> files fs p = None"
proof -
  have k0: "length (key initLocals) = keySize" by (simp add: initLocals_def)
  from scanLoop_pending [OF sc k0] m(2) obtain m' p where
    m': "m' \<in> set msgs" "SeqNum m' = SeqNum m" "storePath x w m' = Some p" "files fs p = None"
    by (auto simp: initLocals_def)
  from ds have "inj_on SeqNum (set msgs)" by (simp add: distinct_map)
  with m(1) m'(1,2) have "m' = m" by (simp add: inj_on_def)
  with m'(3,4) show ?thesis by blast
qed

lemma persistLoop_untouched:
  assumes "persistLoop x w folder fs st pre = (fs1, r)" "length (key st) = keySize"
    "Some p \<notin> set (map (storePath x w) pre)"
  shows "files fs1 p = files fs p"
proof -
  from persistLoop_log [OF assms(1,2)] obtain new k where
    n: "map Some new = map (storePath x w) (take k pre)"
      "\<forall>q. q \<notin> set new \<longrightarrow> files fs1 q = files fs q"
    by blast
  have "p \<notin> set new"
  proof
    assume "p \<in> set new"
    then have "Some p \<in> set (map Some new)" by simp
    with n(1) have "Some p \<in> set (map (storePath x w) (take k pre))" by simp
    then have "Some p \<in> set (map (storePath x w) pre)" by (auto dest: in_set_takeD)
    with assms(3) show False by simp
  qed
  with n(2) show ?thesis by simp
qed

lemma scanLoop_key_length:
  "scanLoop x w fs initLocals msgs = Done st \<Longrightarrow> length (key st) = keySize"
  using scanLoop_pending [of x w fs initLocals msgs st] by (simp add: initLocals_def)

section \<open>The claims\<close>

text \<open>
  C1. Every file the body loop writes is the serialized header, then the separator
  \<open>---\n\<close>, then the body bytes read from the message; the header's \<open>Size\<close> is the
  decimal length of exactly those bytes and its \<open>Hash\<close> is the digest of exactly those
  bytes.
\<close>

theorem persisted_file_layout:
  assumes "persistStep x w folder fs st msg = Done (fs', st')"
  shows "\<exists>env body name hd js.
           Envelope msg = Some env \<and> Body msg = Some body \<and> final body = None \<and>
           hd = mkHeader x name folder env (fromString env)
                  (concat (chunks body)) (concat (chunks body)) \<and>
           jsonEncode x hd = Inr js \<and>
           files fs' (pathJoin x (Store w) name) = Some (js @ headerSep @ concat (chunks body)) \<and>
           Size hd = FormatInt (int (length (concat (chunks body)))) \<and>
           Hash hd = sum256 x (concat (chunks body))"
  using assms
  by (auto simp: persistStep_def Let_def teeCopy_eq hashReset_def osWriteFile_def mkHeader_def
           split: option.splits sum.splits prod.splits)

theorem persisted_file_layout_witness:
  "\<exists>fs' st' hd js.
     persistStep demoExt demoWorker ''INBOX'' emptyStore smallLocals
       (demoMsg 1 ''a@x'' (Some (Reader [''he'', ''llo''] None))) = Done (fs', st') \<and>
     files fs' ''st/a@x.'' = Some (js @ headerSep @ ''hello'') \<and>
     jsonEncode demoExt hd = Inr js \<and> Size hd = ''5'' \<and> Hash hd = ''olleh''"
proof -
  have "\<exists>fs' st'. persistStep demoExt demoWorker ''INBOX'' emptyStore smallLocals
       (demoMsg 1 ''a@x'' (Some (Reader [''he'', ''llo''] None))) = Done (fs', st')"
    by (simp add: demo_defs)
  then obtain fs' st' where step:
    "persistStep demoExt demoWorker ''INBOX'' emptyStore smallLocals
       (demoMsg 1 ''a@x'' (Some (Reader [''he'', ''llo''] None))) = Done (fs', st')"
    by blast
  have name: "fn demoExt (xof smallLocals) (key smallLocals) ''a@x'' = Inr (''a@x.'', ''a@x'', ''a@x.'')"
    by (simp add: demo_defs)
  from persisted_file_layout [OF step] obtain env body name hd js where
    h: "Envelope (demoMsg 1 ''a@x'' (Some (Reader [''he'', ''llo''] None))) = Some env"
       "Body (demoMsg 1 ''a@x'' (Some (Reader [''he'', ''llo''] None))) = Some body"
       "hd = mkHeader demoExt name ''INBOX'' env (fromString env)
                  (concat (chunks body)) (concat (chunks body))"
       "jsonEncode demoExt hd = Inr js"
       "files fs' (pathJoin demoExt (Store demoWorker) name) = Some (js @ headerSep @ concat (chunks body))"
       "Size hd = FormatInt (int (length (concat (chunks body))))"
       "Hash hd = sum256 demoExt (concat (chunks body))"
    by blast
  from h(2) have body: "body = Reader [''he'', ''llo''] None" by (simp add: demoMsg_def)
  from step name have "name = ''a@x.'' \<or> files fs' (pathJoin demoExt (Store demoWorker) name) = None"
    using h(1) by (auto simp: demo_defs split: if_splits)
  with h(5) have nm: "name = ''a@x.''" by auto
  from h(5) nm body have f: "files fs' ''st/a@x.'' = Some (js @ headerSep @ ''hello'')"
    by (simp add: demoExt_def demoWorker_def)
  from h(6) body have sz: "Size hd = ''5''" by (simp add: FormatInt_def natDec.simps)
  from h(7) body have hs: "Hash hd = ''olleh''" by (simp add: demoExt_def)
  from step f h(4) sz hs show ?thesis by blast
qed

text \<open>
  C3. The header literal of the body loop names every field but \<open>InReplyTo\<close>, so the
  persisted \<open>InReplyTo\<close> is the empty string whatever the envelope's in-reply-to is.
\<close>

theorem InReplyTo_never_set:
  "InReplyTo (mkHeader x name folder (env\<lparr>envInReplyTo := ''parent@x''\<rparr>) from bb h) = ''''"
  by (simp add: mkHeader_def)

text \<open>
  C8. Key derivation is deterministic: whatever was written to the shared XOF before and
  whatever the shared 32-byte buffer holds, \<open>fn\<close> returns the same result for the same
  identifier; on success the key has 32 bytes and the name is its base32 form.
\<close>

theorem fn_deterministic:
  "length k1 = keySize \<Longrightarrow> length k2 = keySize \<Longrightarrow>
     fn x s1 k1 m = fn x s2 k2 m \<and>
     (\<forall>name s' k'. fn x s1 k1 m = Inr (name, s', k') \<longrightarrow> length k' = 32 \<and> name = b32 x k')"
  using fn_state_free [of k1 k2 x s1 m s2] fn_Inr_D [of x s1 k1 m]
  by (auto simp: keySize_def)

theorem fn_deterministic_witness:
  "length (replicate 32 (CHR ''a'')) = keySize \<and> length (replicate 32 (CHR ''b'')) = keySize \<and>
   fn demoExt ''earlier@x'' (replicate 32 (CHR ''a'')) ''a@x''
     = fn demoExt [] (replicate 32 (CHR ''b'')) ''a@x''"
  using fn_deterministic [of "replicate 32 (CHR ''a'')" "replicate 32 (CHR ''b'')"
          demoExt "''earlier@x''" "''a@x''" "[]"]
  by (simp add: keySize_def)

text \<open>
  C10. When the body section of a delivered message is absent, the body loop does not
  complete its step: once the name is derived, the copy reads from a nil reader and the
  program panics; no error is returned for it.
\<close>

theorem absent_body_panics:
  "Body msg = None \<Longrightarrow>
     (\<forall>fs' st'. persistStep x w folder fs st msg \<noteq> Done (fs', st')) \<and>
     (\<forall>env r. Envelope msg = Some env \<longrightarrow> fn x (xof st) (key st) (envMessageId env) = Inr r \<longrightarrow>
        persistStep x w folder fs st msg = Panic)"
  by (auto simp: persistStep_def Let_def split: option.splits sum.splits prod.splits)

theorem absent_body_panics_witness:
  "Body (demoMsg 1 ''a@x'' None) = None \<and>
   persistStep demoExt demoWorker ''INBOX'' emptyStore smallLocals (demoMsg 1 ''a@x'' None) = Panic"
proof -
  have b: "Body (demoMsg 1 ''a@x'' None) = None" by (simp add: demoMsg_def)
  have e: "Envelope (demoMsg 1 ''a@x'' None) = Some (demoEnv ''a@x'')" by (simp add: demoMsg_def)
  have f: "fn demoExt (xof smallLocals) (key smallLocals) (envMessageId (demoEnv ''a@x''))
             = Inr (''a@x.'', ''a@x'', ''a@x.'')"
    by (simp add: demo_defs)
  from absent_body_panics [OF b, of demoExt demoWorker "''INBOX''" emptyStore smallLocals] e f b
  show ?thesis by blast
qed

text \<open>
  C2 fails as stated: when the body fetch of a mailbox ends with "no matching messages",
  \<open>Iter\<close> returns that error; only the envelope fetch recognises the condition.
\<close>

theorem body_fetch_no_match_is_error:
  "snd (bodyFetch staleBox [1]) = FetchDone (Some (E ''No matching messages'')) \<and>
   Iter demoExt demoWorker emptyStore staleBox = (emptyStore, Fail (E ''No matching messages''))"
  by (simp add: Iter_def staleBox_def initLocals_def keySize_def demo_defs)

text \<open>
  C2, amended. When the envelope fetch of a mailbox, drained without a store or key
  derivation failure, ends with an error whose text contains "No matching messages",
  \<open>Iter\<close> returns nil and leaves the store as it was: no file is written.
\<close>

theorem envelope_fetch_no_match_is_empty:
  assumes "selectErr mi = None" "scanLoop x w fs initLocals (envMsgs mi) = Done st"
    "envEnd mi = FetchDone (Some e)" "Contains (ErrorString e) ''No matching messages''"
  shows "Iter x w fs mi = (fs, Done ())"
  using assms by (simp add: Iter_def)

theorem envelope_fetch_no_match_is_empty_witness:
  "selectErr emptyBox = None \<and> envEnd emptyBox = FetchDone (Some (E ''No matching messages'')) \<and>
   Iter demoExt demoWorker emptyStore emptyBox = (emptyStore, Done ())"
proof -
  have a: "selectErr emptyBox = None" by (simp add: emptyBox_def)
  have b: "scanLoop demoExt demoWorker emptyStore initLocals (envMsgs emptyBox) = Done initLocals"
    by (simp add: emptyBox_def)
  have c: "envEnd emptyBox = FetchDone (Some (E ''No matching messages''))" by (simp add: emptyBox_def)
  have d: "Contains (ErrorString (E ''No matching messages'')) ''No matching messages''" by simp
  from envelope_fetch_no_match_is_empty [OF a b c d] a c show ?thesis by simp
qed

text \<open>
  C5. The name under which a message is stored depends on its identifier only: for two
  messages with the same identifier, in any two mailboxes and whatever their other fields
  are, \<open>fn\<close> returns the same result, both are written to the same path, and once one
  of them is persisted a scan of the other counts it as existing and does not queue it.
\<close>

theorem store_key_of_MessageId_only:
  assumes p1: "persistStep x w folder1 fs st1 m1 = Done (fs', st1')"
    and e1: "Envelope m1 = Some e1" and e2: "Envelope m2 = Some e2"
    and same: "envMessageId e1 = envMessageId e2"
    and len: "length (key st1) = length (key st2)"
  shows "fn x (xof st1) (key st1) (envMessageId e1) = fn x (xof st2) (key st2) (envMessageId e2) \<and>
         (\<forall>fs2 fs2' st2'. persistStep x w folder2 fs2 st2 m2 = Done (fs2', st2') \<longrightarrow>
             last (wlog fs2') = last (wlog fs')) \<and>
         (\<forall>st'. scanStep x w fs' st2 m2 = Done st' \<longrightarrow>
             existCount st' = existCount st2 + 1 \<and> msgList st' = msgList st2)"
proof -
  have eq: "fn x (xof st1) (key st1) (envMessageId e1) = fn x (xof st2) (key st2) (envMessageId e2)"
    using fn_state_free [OF len] same by simp
  from persistStep_Done_D [OF p1] e1 obtain name xof' key' d where
    f1: "fn x (xof st1) (key st1) (envMessageId e1) = Inr (name, xof', key')"
    and fs': "fs' = fs\<lparr>files := (files fs)(pathJoin x (Store w) name \<mapsto> d),
                    wlog := wlog fs @ [pathJoin x (Store w) name]\<rparr>"
    by auto
  have a: "last (wlog fs2') = last (wlog fs')"
    if "persistStep x w folder2 fs2 st2 m2 = Done (fs2', st2')" for fs2 fs2' st2'
    using persistStep_Done_D [OF that] e2 f1 eq fs' by auto
  have b: "existCount st' = existCount st2 + 1 \<and> msgList st' = msgList st2"
    if "scanStep x w fs' st2 m2 = Done st'" for st'
    using that e2 f1 eq fs'
    by (auto simp: scanStep_def osStat_def split: option.splits stat_result.splits)
  from eq a b show ?thesis by blast
qed

theorem store_key_of_MessageId_only_witness:
  "\<exists>fs' st1' st'.
     persistStep demoExt demoWorker ''INBOX'' emptyStore smallLocals
       (demoMsg 1 ''a@x'' (Some (Reader [''B1''] None))) = Done (fs', st1') \<and>
     scanStep demoExt demoWorker fs' (smallLocals\<lparr>xof := ''zz'', key := ''9999''\<rparr>)
       (demoMsg 7 ''a@x'' None) = Done st' \<and>
     existCount st' = 1 \<and> msgList st' = []"
proof -
  let ?m1 = "demoMsg 1 ''a@x'' (Some (Reader [''B1''] None))"
  let ?m2 = "demoMsg 7 ''a@x'' None"
  let ?st2 = "smallLocals\<lparr>xof := ''zz'', key := ''9999''\<rparr>"
  have "\<exists>fs' st1'. persistStep demoExt demoWorker ''INBOX'' emptyStore smallLocals ?m1 = Done (fs', st1')
          \<and> (\<exists>st'. scanStep demoExt demoWorker fs' ?st2 ?m2 = Done st')"
    by (simp add: demo_defs)
  then obtain fs' st1' st' where
    p: "persistStep demoExt demoWorker ''INBOX'' emptyStore smallLocals ?m1 = Done (fs', st1')"
    and s: "scanStep demoExt demoWorker fs' ?st2 ?m2 = Done st'"
    by blast
  have e1: "Envelope ?m1 = Some (demoEnv ''a@x'')" and e2: "Envelope ?m2 = Some (demoEnv ''a@x'')"
    by (simp_all add: demoMsg_def)
  have len: "length (key smallLocals) = length (key ?st2)" by (simp add: smallLocals_def)
  from store_key_of_MessageId_only [OF p e1 e2 refl len, of "''Archive''"] s
  have "existCount st' = existCount ?st2 + 1 \<and> msgList st' = msgList ?st2" by blast
  then have "existCount st' = 1 \<and> msgList st' = []" by (simp add: smallLocals_def)
  with p s show ?thesis by blast
qed

text \<open>
  C7. When the store holds a file for the key of every message of every mailbox, a run
  over the unchanged mailboxes leaves the store as it was (no file is written); in each
  mailbox the scan ends with an empty pending list and an existing count equal to the
  number of messages.
\<close>

theorem second_run_writes_nothing:
  assumes "list_all (settled x w fs) mis"
  shows "iterAll x w fs mis = (fs, Done ()) \<and>
         list_all (\<lambda>mi. Iter x w fs mi = (fs, Done ()) \<and>
                    (\<exists>st. scanLoop x w fs initLocals (envMsgs mi) = Done st \<and>
                        msgList st = [] \<and> existCount st = length (envMsgs mi))) mis"
proof -
  have "Iter x w fs mi = (fs, Done ()) \<and>
        (\<exists>st. scanLoop x w fs initLocals (envMsgs mi) = Done st \<and>
                        msgList st = [] \<and> existCount st = length (envMsgs mi))"
    if "mi \<in> set mis" for mi
  proof -
    from that assms have s: "settled x w fs mi" by (simp add: list_all_iff)
    then have "list_all (stored x w fs) (envMsgs mi)" by (simp add: settled_def)
    from scanLoop_stored [OF this, of initLocals] Iter_settled [OF s]
    show ?thesis by (auto simp: initLocals_def)
  qed
  then show ?thesis using iterAll_settled [OF assms] by (simp add: list_all_iff)
qed

theorem second_run_writes_nothing_witness:
  "\<exists>fs1. Iter demoExt demoWorker emptyStore okBox = (fs1, Done ()) \<and> length (wlog fs1) = 2 \<and>
     list_all (settled demoExt demoWorker fs1) [okBox, okBox\<lparr>Name := ''Archive''\<rparr>] \<and>
     iterAll demoExt demoWorker fs1 [okBox, okBox\<lparr>Name := ''Archive''\<rparr>] = (fs1, Done ())"
proof -
  have "\<exists>fs1. Iter demoExt demoWorker emptyStore okBox = (fs1, Done ()) \<and> length (wlog fs1) = 2 \<and>
          list_all (settled demoExt demoWorker fs1) [okBox, okBox\<lparr>Name := ''Archive''\<rparr>]"
    by (simp add: Iter_def okBox_def initLocals_def keySize_def demo_defs settled_def stored_def)
  then obtain fs1 where
    r: "Iter demoExt demoWorker emptyStore okBox = (fs1, Done ())" "length (wlog fs1) = 2"
    and s: "list_all (settled demoExt demoWorker fs1) [okBox, okBox\<lparr>Name := ''Archive''\<rparr>]"
    by blast
  from second_run_writes_nothing [OF s] r s show ?thesis by blast
qed

text \<open>
  C6 fails as stated: a file for the message being processed when the stream fails does
  exist when an earlier message of the same fetch carries the same identifier. In
  \<open>dupFailBox\<close> the body of the second copy cannot be read, in \<open>dupCutBox\<close> the fetch
  ends with a protocol failure while the second copy is still to come; in both the
  enumeration returns the wrapped error and the store holds the file written for the
  first copy at the path of the second.
\<close>

theorem failing_duplicate_has_a_file:
  "storePath demoExt demoWorker (demoMsg 2 ''a@x'' (Some (Reader [''B''] (Some (E ''connection reset'')))))
     = Some (''st/a@x'' @ replicate 29 (CHR ''.'')) \<and>
   snd (List demoExt demoWorker emptyStore ''host'' (demoSession [dupFailBox]))
     = Fail (Wrap ''iter'' (E ''hash body'')) \<and>
   files (fst (List demoExt demoWorker emptyStore ''host'' (demoSession [dupFailBox])))
       (''st/a@x'' @ replicate 29 (CHR ''.''))
     = Some (''a@x'' @ replicate 29 (CHR ''.'') @ ''||2|1B'' @ headerSep @ ''B1'') \<and>
   snd (List demoExt demoWorker emptyStore ''host'' (demoSession [dupCutBox]))
     = Fail (Wrap ''iter'' (E ''connection reset'')) \<and>
   files (fst (List demoExt demoWorker emptyStore ''host'' (demoSession [dupCutBox])))
       (''st/a@x'' @ replicate 29 (CHR ''.''))
     = Some (''a@x'' @ replicate 29 (CHR ''.'') @ ''||2|1B'' @ headerSep @ ''B1'')"
  by (simp add: storePath_def dupFailBox_def dupCutBox_def List_def demoSession_def Iter_def
        initLocals_def keySize_def demo_defs)

text \<open>
  C6, amended. When a mailbox reached by the enumeration fails in one of its streams,
  \<open>List\<close> returns the error wrapped as \<open>iter: ...\<close>, and the store is the one left by
  the messages persisted before the failure; nothing is written for the message being
  processed. An envelope fetch that ends with a protocol failure leaves the store as the
  mailbox found it. A body that cannot be read to its end aborts before anything is
  written for its message: the writes of the mailbox are those of the messages before it,
  one each, and when the mailbox is served as asked (so that no earlier message of the
  fetch has its store path) no file exists at its store path. A body fetch that ends with
  a protocol failure after its messages leaves one write for each message delivered, and
  when the mailbox is served as asked no file exists for a queued message whose store
  path is not that of a delivered one.
\<close>

theorem stream_failure_aborts_without_write:
  assumes c: "dialErr c = None" "loginErr c = None" "listEnd c = FetchDone None"
    "listed c = before @ mi # rest" "iterAll x w fs0 before = (fs, Done ())"
    and mi: "ctxErr mi = None" "selectErr mi = None"
    "scanLoop x w fs initLocals (envMsgs mi) = Done st"
  shows
    "(envEnd mi = FetchDone (Some e) \<and> \<not> Contains (ErrorString e) ''No matching messages'' \<longrightarrow>
        Iter x w fs mi = (fs, Fail (Wrap ''fetch'' e)) \<and>
        List x w fs0 server c = (fs, Fail (Wrap ''iter'' (Wrap ''fetch'' e)))) \<and>
     (envEnd mi = FetchDone None \<and> msgList st \<noteq> [] \<and>
      bodyFetch mi (msgList st) = (pre @ m # post, bodyEnd) \<and>
      persistLoop x w (Name mi) fs st pre = (fs1, Done st1) \<and>
      Envelope m = Some env \<and> fn x (xof st1) (key st1) (envMessageId env) = Inr r \<and>
      Body m = Some rd \<and> final rd = Some e' \<longrightarrow>
        Iter x w fs mi = (fs1, Fail (E ''hash body'')) \<and>
        List x w fs0 server c = (fs1, Fail (Wrap ''iter'' (E ''hash body''))) \<and>
        length (wlog fs1) = length (wlog fs) + length pre \<and>
        (servedNow x w fs mi \<longrightarrow> (\<exists>p. storePath x w m = Some p \<and> files fs1 p = None))) \<and>
     (envEnd mi = FetchDone None \<and> msgList st \<noteq> [] \<and>
      bodyFetch mi (msgList st) = (pre, FetchDone (Some e)) \<and>
      persistLoop x w (Name mi) fs st pre = (fs1, Done st1) \<longrightarrow>
        Iter x w fs mi = (fs1, Fail e) \<and>
        List x w fs0 server c = (fs1, Fail (Wrap ''iter'' e)) \<and>
        length (wlog fs1) = length (wlog fs) + length pre \<and>
        (servedNow x w fs mi \<longrightarrow>
           (\<forall>m'\<in>set (envMsgs mi).
              SeqNum m' \<in> set (msgList st) \<and>
              storePath x w m' \<notin> set (map (storePath x w) pre) \<longrightarrow>
                (\<exists>p. storePath x w m' = Some p \<and> files fs1 p = None))))"
proof (intro conjI impI)
  assume h: "envEnd mi = FetchDone (Some e) \<and> \<not> Contains (ErrorString e) ''No matching messages''"
  with mi show i: "Iter x w fs mi = (fs, Fail (Wrap ''fetch'' e))" by (simp add: Iter_def)
  from List_reaches [OF c mi(1) i]
  show "List x w fs0 server c = (fs, Fail (Wrap ''iter'' (Wrap ''fetch'' e)))" .
next
  assume h: "envEnd mi = FetchDone None \<and> msgList st \<noteq> [] \<and>
      bodyFetch mi (msgList st) = (pre @ m # post, bodyEnd) \<and>
      persistLoop x w (Name mi) fs st pre = (fs1, Done st1) \<and>
      Envelope m = Some env \<and> fn x (xof st1) (key st1) (envMessageId env) = Inr r \<and>
      Body m = Some rd \<and> final rd = Some e'"
  then have s: "persistStep x w (Name mi) fs1 st1 m = Fail (E ''hash body'')"
    using persistStep_read_failure by blast
  from h have "persistLoop x w (Name mi) fs st (pre @ m # post) = (fs1, Fail (E ''hash body''))"
    using persistLoop_append [of x w "Name mi" fs st pre fs1 st1 "m # post"] s by simp
  with h mi show i: "Iter x w fs mi = (fs1, Fail (E ''hash body''))" by (simp add: Iter_def)
  from List_reaches [OF c mi(1) i]
  show "List x w fs0 server c = (fs1, Fail (Wrap ''iter'' (E ''hash body'')))" .
  from h persistLoop_writes show "length (wlog fs1) = length (wlog fs) + length pre" by blast
  assume sv: "servedNow x w fs mi"
  from h have del: "fst (bodyFetch mi (msgList st)) = pre @ m # post"
    and pl: "persistLoop x w (Name mi) fs st pre = (fs1, Done st1)"
    by simp_all
  from sv mi(3) del have
    ds: "distinct (map SeqNum (envMsgs mi))"
    and dm: "SeqNum m \<in> set (msgList st)"
      "\<exists>m'\<in>set (envMsgs mi). SeqNum m' = SeqNum m \<and> Envelope m' = Envelope m"
    and dp: "distinct (map (storePath x w) (pre @ m # post))"
    by (simp_all add: servedNow_def list_ex_iff)
  from dm(2) obtain m' where
    m': "m' \<in> set (envMsgs mi)" "SeqNum m' = SeqNum m" "Envelope m' = Envelope m"
    by blast
  from pending_absent [OF mi(3) ds m'(1)] m'(2) dm(1) obtain p where
    p: "storePath x w m' = Some p" "files fs p = None"
    by auto
  from storePath_Envelope [OF m'(3), of x w] p(1) have pm: "storePath x w m = Some p" by simp
  from dp pm have "Some p \<notin> set (map (storePath x w) pre)" by auto
  from persistLoop_untouched [OF pl scanLoop_key_length [OF mi(3)] this] p(2) pm
  show "\<exists>p. storePath x w m = Some p \<and> files fs1 p = None" by simp
next
  assume h: "envEnd mi = FetchDone None \<and> msgList st \<noteq> [] \<and>
      bodyFetch mi (msgList st) = (pre, FetchDone (Some e)) \<and>
      persistLoop x w (Name mi) fs st pre = (fs1, Done st1)"
  with mi show i: "Iter x w fs mi = (fs1, Fail e)" by (simp add: Iter_def)
  from List_reaches [OF c mi(1) i] show "List x w fs0 server c = (fs1, Fail (Wrap ''iter'' e))" .
  from h persistLoop_writes show "length (wlog fs1) = length (wlog fs) + length pre" by blast
  assume sv: "servedNow x w fs mi"
  from h have pl: "persistLoop x w (Name mi) fs st pre = (fs1, Done st1)" by simp
  from sv mi(3) have ds: "distinct (map SeqNum (envMsgs mi))" by (simp add: servedNow_def)
  show "\<forall>m'\<in>set (envMsgs mi).
          SeqNum m' \<in> set (msgList st) \<and>
          storePath x w m' \<notin> set (map (storePath x w) pre) \<longrightarrow>
            (\<exists>p. storePath x w m' = Some p \<and> files fs1 p = None)"
  proof (intro ballI impI)
    fix m' assume a: "m' \<in> set (envMsgs mi)"
      and b: "SeqNum m' \<in> set (msgList st) \<and> storePath x w m' \<notin> set (map (storePath x w) pre)"
    from pending_absent [OF mi(3) ds a] b obtain p where
      p: "storePath x w m' = Some p" "files fs p = None"
      by auto
    with b have "Some p \<notin> set (map (storePath x w) pre)" by simp
    from persistLoop_untouched [OF pl scanLoop_key_length [OF mi(3)] this] p
    show "\<exists>p. storePath x w m' = Some p \<and> files fs1 p = None" by simp
  qed
qed

theorem stream_failure_aborts_without_write_witness:
  "(\<exists>fs1. List demoExt demoWorker emptyStore ''host'' (demoSession [emptyBox, failBox])
             = (fs1, Fail (Wrap ''iter'' (E ''hash body''))) \<and> length (wlog fs1) = 1 \<and>
           servedNow demoExt demoWorker emptyStore failBox \<and>
           files fs1 (''st/b@x'' @ replicate 29 (CHR ''.'')) = None) \<and>
   List demoExt demoWorker emptyStore ''host'' (demoSession [emptyBox, brokenBox])
     = (emptyStore, Fail (Wrap ''iter'' (Wrap ''fetch'' (E ''connection reset'')))) \<and>
   (\<exists>fs1. List demoExt demoWorker emptyStore ''host'' (demoSession [emptyBox, cutBox])
             = (fs1, Fail (Wrap ''iter'' (E ''connection reset''))) \<and> length (wlog fs1) = 1 \<and>
           servedNow demoExt demoWorker emptyStore cutBox \<and>
           files fs1 (''st/b@x'' @ replicate 29 (CHR ''.'')) = None)"
proof -
  let ?m1 = "demoMsg 1 ''a@x'' (Some (Reader [''B1''] None))"
  let ?m2 = "demoMsg 2 ''b@x'' (Some (Reader [''B''] (Some (E ''connection reset''))))"
  let ?pb = "''st/b@x'' @ replicate 29 (CHR ''.'')"
  have c: "dialErr (demoSession bs) = None" "loginErr (demoSession bs) = None"
    "listEnd (demoSession bs) = FetchDone None" for bs
    by (simp_all add: demoSession_def)
  have l: "listed (demoSession [emptyBox, b]) = [emptyBox] @ b # []" for b
    by (simp add: demoSession_def)
  have b: "iterAll demoExt demoWorker emptyStore [emptyBox] = (emptyStore, Done ())"
    by (simp add: Iter_def emptyBox_def)
  have f: "ctxErr failBox = None" "selectErr failBox = None" "envEnd failBox = FetchDone None"
    "Name failBox = ''INBOX''"
    "bodyFetch failBox ss = ([?m1] @ ?m2 # [], FetchDone None)" for ss
    by (simp_all add: failBox_def)
  have "\<exists>st fs1 st1 r. scanLoop demoExt demoWorker emptyStore initLocals (envMsgs failBox) = Done st \<and>
          msgList st \<noteq> [] \<and>
          persistLoop demoExt demoWorker ''INBOX'' emptyStore st [?m1] = (fs1, Done st1) \<and>
          fn demoExt (xof st1) (key st1) (envMessageId (demoEnv ''b@x'')) = Inr r"
    by (simp add: failBox_def initLocals_def keySize_def demo_defs)
  then obtain st fs1 st1 r where
    s: "scanLoop demoExt demoWorker emptyStore initLocals (envMsgs failBox) = Done st"
      "msgList st \<noteq> []"
      "persistLoop demoExt demoWorker ''INBOX'' emptyStore st [?m1] = (fs1, Done st1)"
      "fn demoExt (xof st1) (key st1) (envMessageId (demoEnv ''b@x'')) = Inr r"
    by blast
  have m2: "Envelope ?m2 = Some (demoEnv ''b@x'')"
    "Body ?m2 = Some (Reader [''B''] (Some (E ''connection reset'')))"
    "final (Reader [''B''] (Some (E ''connection reset''))) = Some (E ''connection reset'')"
    by (simp_all add: demoMsg_def)
  have w0: "length (wlog emptyStore) = 0" by (simp add: emptyStore_def)
  have svf: "servedNow demoExt demoWorker emptyStore failBox"
    by (simp add: servedNow_def storePath_def failBox_def initLocals_def keySize_def demo_defs)
  have pm2: "storePath demoExt demoWorker ?m2 = Some ?pb"
    by (simp add: storePath_def keySize_def demo_defs)
  from stream_failure_aborts_without_write [OF c l b f(1) f(2) s(1), THEN conjunct2, THEN conjunct1,
           rule_format,
           of "[?m1]" ?m2 "[]" "FetchDone None" fs1 st1 "demoEnv ''b@x''" r
              "Reader [''B''] (Some (E ''connection reset''))" "E ''connection reset''" "''host''"]
    f s m2 w0 svf
  have A0: "List demoExt demoWorker emptyStore ''host'' (demoSession [emptyBox, failBox])
             = (fs1, Fail (Wrap ''iter'' (E ''hash body''))) \<and> length (wlog fs1) = 1 \<and>
            (\<exists>p. storePath demoExt demoWorker ?m2 = Some p \<and> files fs1 p = None)"
    by simp
  with pm2 svf have A: "List demoExt demoWorker emptyStore ''host'' (demoSession [emptyBox, failBox])
             = (fs1, Fail (Wrap ''iter'' (E ''hash body''))) \<and> length (wlog fs1) = 1 \<and>
            servedNow demoExt demoWorker emptyStore failBox \<and> files fs1 ?pb = None"
    by auto
  have g: "ctxErr brokenBox = None" "selectErr brokenBox = None"
    "envEnd brokenBox = FetchDone (Some (E ''connection reset''))"
    by (simp_all add: brokenBox_def)
  have "\<exists>st. scanLoop demoExt demoWorker emptyStore initLocals (envMsgs brokenBox) = Done st"
    by (simp add: brokenBox_def initLocals_def keySize_def demo_defs)
  then obtain st' where
    s': "scanLoop demoExt demoWorker emptyStore initLocals (envMsgs brokenBox) = Done st'"
    by blast
  have nc: "\<not> Contains (ErrorString (E ''connection reset'')) ''No matching messages''" by simp
  from stream_failure_aborts_without_write [OF c l b g(1) g(2) s', THEN conjunct1, rule_format,
         of "E ''connection reset''" "''host''"]
    g(3) nc
  have B: "List demoExt demoWorker emptyStore ''host'' (demoSession [emptyBox, brokenBox])
     = (emptyStore, Fail (Wrap ''iter'' (Wrap ''fetch'' (E ''connection reset''))))"
    by simp
  have k: "ctxErr cutBox = None" "selectErr cutBox = None" "envEnd cutBox = FetchDone None"
    "Name cutBox = ''INBOX''"
    "bodyFetch cutBox ss = ([?m1], FetchDone (Some (E ''connection reset'')))" for ss
    by (simp_all add: cutBox_def)
  have "\<exists>st fs1 st1. scanLoop demoExt demoWorker emptyStore initLocals (envMsgs cutBox) = Done st \<and>
          msgList st = [1, 2] \<and>
          persistLoop demoExt demoWorker ''INBOX'' emptyStore st [?m1] = (fs1, Done st1)"
    by (simp add: cutBox_def initLocals_def keySize_def demo_defs)
  then obtain st2 fs2 st3 where
    t: "scanLoop demoExt demoWorker emptyStore initLocals (envMsgs cutBox) = Done st2"
      "msgList st2 = [1, 2]"
      "persistLoop demoExt demoWorker ''INBOX'' emptyStore st2 [?m1] = (fs2, Done st3)"
    by blast
  have svc: "servedNow demoExt demoWorker emptyStore cutBox"
    by (simp add: servedNow_def storePath_def cutBox_def initLocals_def keySize_def demo_defs)
  have q: "demoMsg 2 ''b@x'' None \<in> set (envMsgs cutBox)"
    "SeqNum (demoMsg 2 ''b@x'' None) \<in> set (msgList st2)"
    "storePath demoExt demoWorker (demoMsg 2 ''b@x'' None) = Some ?pb"
    "storePath demoExt demoWorker (demoMsg 2 ''b@x'' None)
       \<notin> set (map (storePath demoExt demoWorker) [?m1])"
    using t(2) by (simp_all add: cutBox_def storePath_def keySize_def demo_defs)
  from t(2) have ne: "msgList st2 \<noteq> []" by simp
  from stream_failure_aborts_without_write [OF c l b k(1) k(2) t(1), THEN conjunct2, THEN conjunct2,
           rule_format, of "[?m1]" "E ''connection reset''" fs2 st3 "''host''"]
    k t(1,3) ne w0
  have C0: "List demoExt demoWorker emptyStore ''host'' (demoSession [emptyBox, cutBox])
             = (fs2, Fail (Wrap ''iter'' (E ''connection reset''))) \<and> length (wlog fs2) = 1 \<and>
            (servedNow demoExt demoWorker emptyStore cutBox \<longrightarrow>
               (\<forall>m'\<in>set (envMsgs cutBox).
                  SeqNum m' \<in> set (msgList st2) \<and>
                  storePath demoExt demoWorker m' \<notin> set (map (storePath demoExt demoWorker) [?m1]) \<longrightarrow>
                    (\<exists>p. storePath demoExt demoWorker m' = Some p \<and> files fs2 p = None)))"
    by simp
  with svc q have "\<exists>p. storePath demoExt demoWorker (demoMsg 2 ''b@x'' None) = Some p \<and> files fs2 p = None"
    by blast
  with q(3) have "files fs2 ?pb = None" by auto
  with C0 svc have C: "List demoExt demoWorker emptyStore ''host'' (demoSession [emptyBox, cutBox])
             = (fs2, Fail (Wrap ''iter'' (E ''connection reset''))) \<and> length (wlog fs2) = 1 \<and>
            servedNow demoExt demoWorker emptyStore cutBox \<and> files fs2 ?pb = None"
    by blast
  from A B C show ?thesis by blast
qed

text \<open>
  C9 fails as stated: whatever the XOF is, the derived keys are 32-byte strings, of which
  there are finitely many, while there are infinitely many identifiers; so no key
  derivation is injective.
\<close>

theorem no_injective_key_derivation:
  "\<not> (\<exists>x. \<forall>m1 m2. m1 \<noteq> m2 \<longrightarrow> deriveKey x m1 \<noteq> deriveKey x m2)"
proof
  assume "\<exists>x. \<forall>m1 m2. m1 \<noteq> m2 \<longrightarrow> deriveKey x m1 \<noteq> deriveKey x m2"
  then obtain x where "\<forall>m1 m2. m1 \<noteq> m2 \<longrightarrow> deriveKey x m1 \<noteq> deriveKey x m2" ..
  then have i: "inj (deriveKey x)" by (auto simp: inj_on_def)
  have "range (deriveKey x) \<subseteq> insert None (Some ` {k. set k \<subseteq> UNIV \<and> length k = keySize})"
    by (auto simp: deriveKey_def split: sum.splits dest!: fn_Inr_D)
  moreover have "finite (insert None (Some ` {k :: bytes. set k \<subseteq> UNIV \<and> length k = keySize}))"
    using finite_lists_length_eq [of "UNIV :: char set" keySize] by simp
  ultimately have "finite (range (deriveKey x))" by (rule finite_subset)
  with i have "finite (UNIV :: string set)" using finite_imageD by blast
  then show False using infinite_UNIV_listI by blast
qed

text \<open>
  C9, amended. Two derivations that succeed give different keys exactly when the XOF's
  32-byte outputs for the two identifiers differ; and where the base32 encoding is
  injective, different names exactly when the keys differ.
\<close>

theorem keys_differ_as_xof_outputs:
  assumes "fn x s1 k1 m1 = Inr (n1, s1', key1)" "fn x s2 k2 m2 = Inr (n2, s2', key2)"
    "length k1 = keySize" "length k2 = keySize"
  shows "(key1 \<noteq> key2) = (fst (xofRead x m1 keySize) \<noteq> fst (xofRead x m2 keySize)) \<and>
         (inj (b32 x) \<longrightarrow> (n1 \<noteq> n2) = (key1 \<noteq> key2))"
  using fn_Inr_D [OF assms(1)] fn_Inr_D [OF assms(2)] assms(3,4)
  by (auto simp: inj_on_def)

theorem keys_differ_as_xof_outputs_witness:
  "\<exists>key1 key2. deriveKey demoExt ''a@x'' = Some key1 \<and> deriveKey demoExt ''b@x'' = Some key2 \<and>
     key1 \<noteq> key2"
proof -
  let ?z = "replicate keySize (CHR 0x00)"
  have "\<exists>n1 s1 key1 n2 s2 key2. fn demoExt [] ?z ''a@x'' = Inr (n1, s1, key1) \<and>
          fn demoExt [] ?z ''b@x'' = Inr (n2, s2, key2) \<and>
          fst (xofRead demoExt ''a@x'' keySize) \<noteq> fst (xofRead demoExt ''b@x'' keySize)"
    by (simp add: keySize_def demo_defs)
  then obtain n1 s1 key1 n2 s2 key2 where
    f: "fn demoExt [] ?z ''a@x'' = Inr (n1, s1, key1)" "fn demoExt [] ?z ''b@x'' = Inr (n2, s2, key2)"
    and d: "fst (xofRead demoExt ''a@x'' keySize) \<noteq> fst (xofRead demoExt ''b@x'' keySize)"
    by blast
  have l: "length ?z = keySize" by simp
  from keys_differ_as_xof_outputs [OF f l l] d have "key1 \<noteq> key2" by simp
  moreover from f have "deriveKey demoExt ''a@x'' = Some key1" "deriveKey demoExt ''b@x'' = Some key2"
    by (simp_all add: deriveKey_def)
  ultimately show ?thesis by blast
qed

text \<open>
  C4 fails as stated: when two messages of a mailbox carry the same identifier and no
  file for it exists, the scan queues both and the body loop writes the same path twice,
  the second record over the first.
\<close>

theorem duplicate_id_written_twice:
  "snd (Iter demoExt demoWorker emptyStore dupBox) = Done () \<and>
   wlog (fst (Iter demoExt demoWorker emptyStore dupBox))
     = [''st/a@x'' @ replicate 29 (CHR ''.''), ''st/a@x'' @ replicate 29 (CHR ''.'')] \<and>
   files (fst (Iter demoExt demoWorker emptyStore dupBox)) (''st/a@x'' @ replicate 29 (CHR ''.''))
     = Some (''a@x'' @ replicate 29 (CHR ''.'') @ ''||2|2B'' @ headerSep @ ''B2'')"
  by (simp add: dupBox_def Iter_def initLocals_def keySize_def demo_defs)

text \<open>
  C4, amended. In a run whose mailboxes are served as asked (sequence numbers without
  repetition, bodies delivered only for requested numbers and with the envelopes the scan
  saw, no two delivered messages of a mailbox with the same store path), every path is
  written at most once, every written path had no file before the run and has one after
  it, and the file of every other path is left as it was.
\<close>

theorem served_run_writes_each_key_once:
  assumes "List x w fs server c = (fs', r)" "servedRun x w fs (listed c)"
  shows "\<exists>new. wlog fs' = wlog fs @ new \<and> distinct new \<and>
           (\<forall>p\<in>set new. files fs p = None \<and> files fs' p \<noteq> None) \<and>
           (\<forall>p. p \<notin> set new \<longrightarrow> files fs' p = files fs p)"
proof -
  from List_store [OF assms(1)] show ?thesis
  proof
    assume "fs' = fs"
    then have "wlog fs' = wlog fs @ [] \<and> distinct ([] :: string list) \<and>
        (\<forall>p. p \<notin> set [] \<longrightarrow> files fs' p = files fs p)" by simp
    then show ?thesis by (metis empty_iff empty_set)
  next
    assume "\<exists>r'. iterAll x w fs (listed c) = (fs', r')"
    then obtain r' where "iterAll x w fs (listed c) = (fs', r')" ..
    from iterAll_writes [OF this assms(2)] show ?thesis .
  qed
qed

theorem served_run_writes_each_key_once_witness:
  "\<exists>fs'. List demoExt demoWorker emptyStore ''host'' (demoSession [inboxBox, archiveBox])
            = (fs', Done ()) \<and>
     servedRun demoExt demoWorker emptyStore (listed (demoSession [inboxBox, archiveBox])) \<and>
     length (wlog fs') = 3 \<and> distinct (wlog fs')"
proof -
  have "\<exists>fs'. List demoExt demoWorker emptyStore ''host'' (demoSession [inboxBox, archiveBox])
            = (fs', Done ()) \<and> length (wlog fs') = 3"
    by (simp add: List_def demoSession_def inboxBox_def archiveBox_def Iter_def initLocals_def
          keySize_def demo_defs)
  then obtain fs' where
    l: "List demoExt demoWorker emptyStore ''host'' (demoSession [inboxBox, archiveBox])
            = (fs', Done ())" "length (wlog fs') = 3"
    by blast
  have s: "servedRun demoExt demoWorker emptyStore (listed (demoSession [inboxBox, archiveBox]))"
    by (simp add: demoSession_def inboxBox_def archiveBox_def servedNow_def storePath_def
          Iter_def initLocals_def keySize_def demo_defs)
  from served_run_writes_each_key_once [OF l(1) s] obtain new where
    "wlog fs' = wlog emptyStore @ new" "distinct new"
    by blast
  then have "distinct (wlog fs')" by (simp add: emptyStore_def)
  with l s show ?thesis by blast
qed

end
